theory Spec2Isabelle
  imports Main
begin

section \<open>Data model of taskmaster.py\<close>

text \<open>
  The enum \<^verbatim>\<open>TaskStatus\<close> and the pydantic models \<^verbatim>\<open>Task\<close> and
  \<^verbatim>\<open>TaskRequest\<close> (lines 12 to 28). The field \<^verbatim>\<open>id\<close> of a task is \<open>id_t\<close> here,
  since \<open>id\<close> is the identity function of HOL; the fields of a request carry the prefix
  \<open>req_\<close>.
\<close>

datatype TaskStatus = PENDING | IN_PROGRESS | COMPLETED | FAILED

record Task =
  id_t :: string
  status :: TaskStatus
  message :: string
  dependencies :: "string list"
  requires_ordering :: bool

record TaskRequest =
  req_message :: string
  req_dependencies :: "string list"
  req_requires_ordering :: bool

text \<open>
  What a queue message body is to \<^verbatim>\<open>json.loads(body)["task_id"]\<close>: the JSON object
  that \<^verbatim>\<open>queue_task\<close> writes with \<^verbatim>\<open>json.dumps\<close> (a task id and a message), some
  other JSON value that has no key \<^verbatim>\<open>task_id\<close>, or bytes that are not JSON at all.
\<close>

datatype body = Json_task string string | Json_other | Not_json

text \<open>
  The exceptions the code can raise: \<^verbatim>\<open>KeyError\<close> from a dictionary lookup,
  \<^verbatim>\<open>HTTPException\<close> with its status code and detail, the decode error of
  \<^verbatim>\<open>json.loads\<close>, and an error raised by the work of a task (lines 53 to 55).
\<close>

datatype error =
    KeyError string
  | HTTPException nat string
  | JSONDecodeError
  | ExecutionError

text \<open>
  The module state: the two dictionaries \<^verbatim>\<open>tasks\<close> and \<^verbatim>\<open>dependents\<close>
  (lines 34 and 35) and, for the broker, the messages waiting in each named queue.
\<close>

record state =
  tasks :: "string \<rightharpoonup> Task"
  dependents :: "string \<rightharpoonup> string list"
  queues :: "string \<Rightarrow> body list"

definition init :: state where
  "init = \<lparr>tasks = Map.empty, dependents = Map.empty, queues = (\<lambda>_. [])\<rparr>"

datatype queue_key = regular | ordered

fun QUEUES :: "queue_key \<Rightarrow> string" where
  "QUEUES regular = ''taskmaster.tasks.regular''"
| "QUEUES ordered = ''taskmaster.tasks.ordered''"

text \<open>
  What the broker does during one call of \<^verbatim>\<open>queue_task\<close>: the connection cannot be
  opened, \<^verbatim>\<open>basic_publish\<close> raises, \<^verbatim>\<open>connection.close()\<close> raises after the
  message went out, or all three calls succeed.
\<close>

datatype transport = Connect_fails | Publish_fails | Close_fails | Transport_ok

section \<open>The operations\<close>

text \<open>
  \<^verbatim>\<open>any(tasks[d].status != TaskStatus.COMPLETED for d in task.dependencies)\<close>
  (line 63) and \<^verbatim>\<open>all(tasks[d].status == TaskStatus.COMPLETED for d in ...)\<close>
  (line 58). Both read the list from the left and stop at the first element that decides
  the result; a dependency id that is not a key of \<^verbatim>\<open>tasks\<close> raises \<^verbatim>\<open>KeyError\<close>
  when it is reached.
\<close>

fun any_not_completed :: "(string \<rightharpoonup> Task) \<Rightarrow> string list \<Rightarrow> error + bool" where
  "any_not_completed ts [] = Inr False"
| "any_not_completed ts (d # ds) =
     (case ts d of
        None \<Rightarrow> Inl (KeyError d)
      | Some t \<Rightarrow> if status t \<noteq> COMPLETED then Inr True else any_not_completed ts ds)"

fun all_completed :: "(string \<rightharpoonup> Task) \<Rightarrow> string list \<Rightarrow> error + bool" where
  "all_completed ts [] = Inr True"
| "all_completed ts (d # ds) =
     (case ts d of
        None \<Rightarrow> Inl (KeyError d)
      | Some t \<Rightarrow> if status t = COMPLETED then all_completed ts ds else Inr False)"

definition basic_publish :: "string \<Rightarrow> body \<Rightarrow> state \<Rightarrow> state" where
  "basic_publish routing_key b s =
     s\<lparr>queues := (queues s)(routing_key := queues s routing_key @ [b])\<rparr>"

text \<open>
  \<^verbatim>\<open>queue_task\<close> (lines 61 to 80). The result is the exception or the returned
  boolean, and the state after the call.
\<close>

definition queue_task :: "transport \<Rightarrow> string \<Rightarrow> state \<Rightarrow> (error + bool) \<times> state" where
  "queue_task tr task_id s =
     (case tasks s task_id of
        None \<Rightarrow> (Inl (KeyError task_id), s)
      | Some task \<Rightarrow>
          (case any_not_completed (tasks s) (dependencies task) of
             Inl e \<Rightarrow> (Inl e, s)
           | Inr True \<Rightarrow> (Inr False, s)
           | Inr False \<Rightarrow>
               (let queue = (if requires_ordering task then QUEUES ordered else QUEUES regular);
                    sent = basic_publish queue (Json_task task_id (message task)) s
                in case tr of
                     Connect_fails \<Rightarrow> (Inr False, s)
                   | Publish_fails \<Rightarrow> (Inr False, s)
                   | Close_fails \<Rightarrow> (Inr False, sent)
                   | Transport_ok \<Rightarrow> (Inr True, sent))))"

text \<open>
  The loop of lines 57 to 59 over \<^verbatim>\<open>dependents.get(task_id, [])\<close>. The call of
  \<^verbatim>\<open>queue_task\<close> made in iteration \<open>i\<close> meets the broker behaviour \<open>orc i\<close>.
\<close>

fun dispatch_dependents ::
  "(nat \<Rightarrow> transport) \<Rightarrow> nat \<Rightarrow> string list \<Rightarrow> state \<Rightarrow> (error + unit) \<times> state" where
  "dispatch_dependents orc i [] s = (Inr (), s)"
| "dispatch_dependents orc i (dep_id # rest) s =
     (case tasks s dep_id of
        None \<Rightarrow> (Inl (KeyError dep_id), s)
      | Some dt \<Rightarrow>
          (case all_completed (tasks s) (dependencies dt) of
             Inl e \<Rightarrow> (Inl e, s)
           | Inr False \<Rightarrow> dispatch_dependents orc (Suc i) rest s
           | Inr True \<Rightarrow>
               (case queue_task (orc i) dep_id s of
                  (Inl e, s') \<Rightarrow> (Inl e, s')
                | (Inr _, s') \<Rightarrow> dispatch_dependents orc (Suc i) rest s')))"

text \<open>
  \<^verbatim>\<open>process_task\<close> (lines 50 to 59). \<open>exec_ok\<close> says whether the work between the two
  status assignments (lines 53 to 55) returns; when it raises, the task stays
  \<^verbatim>\<open>IN_PROGRESS\<close> and the exception leaves the function.
\<close>

definition process_task ::
  "bool \<Rightarrow> (nat \<Rightarrow> transport) \<Rightarrow> string \<Rightarrow> state \<Rightarrow> (error + unit) \<times> state" where
  "process_task exec_ok orc task_id s =
     (case tasks s task_id of
        None \<Rightarrow> (Inl (KeyError task_id), s)
      | Some task \<Rightarrow>
          (let s1 = s\<lparr>tasks := (tasks s)(task_id \<mapsto> task\<lparr>status := IN_PROGRESS\<rparr>)\<rparr> in
           if \<not> exec_ok then (Inl ExecutionError, s1)
           else
             (let s2 = s1\<lparr>tasks := (tasks s1)(task_id \<mapsto> task\<lparr>status := COMPLETED\<rparr>)\<rparr> in
              dispatch_dependents orc 0
                (case dependents s2 task_id of None \<Rightarrow> [] | Some l \<Rightarrow> l) s2)))"

text \<open>\<^verbatim>\<open>json.loads(body)["task_id"]\<close> (lines 91, 92 and 98, 99).\<close>

fun json_task_id :: "body \<Rightarrow> error + string" where
  "json_task_id (Json_task task_id m) = Inr task_id"
| "json_task_id Json_other = Inl (KeyError ''task_id'')"
| "json_task_id Not_json = Inl JSONDecodeError"

text \<open>
  The message handler \<^verbatim>\<open>callback\<close> of a worker (lines 89 to 102). The result is
  the exception that leaves the handler, if any, whether \<^verbatim>\<open>basic_ack\<close> was called
  for the message, and the state. The \<^verbatim>\<open>except\<close> branch decodes the body a second
  time (lines 98 and 99), outside any \<^verbatim>\<open>try\<close>.
\<close>

definition callback ::
  "bool \<Rightarrow> (nat \<Rightarrow> transport) \<Rightarrow> body \<Rightarrow> state \<Rightarrow> error option \<times> bool \<times> state" where
  "callback exec_ok orc b s =
     (case (case json_task_id b of
              Inl e \<Rightarrow> (Inl e, s)
            | Inr task_id \<Rightarrow> process_task exec_ok orc task_id s) of
        (Inr _, s1) \<Rightarrow> (None, True, s1)
      | (Inl e, s1) \<Rightarrow>
          (case json_task_id b of
             Inl e' \<Rightarrow> (Some e', False, s1)
           | Inr task_id \<Rightarrow>
               (None, True,
                (case tasks s1 task_id of
                   None \<Rightarrow> s1
                 | Some t \<Rightarrow> s1\<lparr>tasks := (tasks s1)(task_id \<mapsto> t\<lparr>status := FAILED\<rparr>)\<rparr>))))"

text \<open>
  The loops of \<^verbatim>\<open>create_task\<close>: the check of lines 130 to 132, which gives the
  first dependency id that is not a key of \<^verbatim>\<open>tasks\<close>, and the linking of lines 141
  to 144.
\<close>

fun missing_dependency :: "(string \<rightharpoonup> Task) \<Rightarrow> string list \<Rightarrow> string option" where
  "missing_dependency ts [] = None"
| "missing_dependency ts (dep_id # rest) =
     (if dep_id \<notin> dom ts then Some dep_id else missing_dependency ts rest)"

fun link_dependents ::
  "string \<Rightarrow> string list \<Rightarrow> (string \<rightharpoonup> string list) \<Rightarrow> (string \<rightharpoonup> string list)" where
  "link_dependents task_id [] dm = dm"
| "link_dependents task_id (dep_id # rest) dm =
     link_dependents task_id rest
       (dm(dep_id \<mapsto> (case dm dep_id of None \<Rightarrow> [] | Some l \<Rightarrow> l) @ [task_id]))"

text \<open>
  \<^verbatim>\<open>create_task\<close> (lines 128 to 146). \<open>task_id\<close> is the value of
  \<^verbatim>\<open>str(uuid.uuid4())[:8]\<close>, which the function takes from the random source and
  does not compare with the keys of \<^verbatim>\<open>tasks\<close>.
\<close>

definition create_task ::
  "transport \<Rightarrow> string \<Rightarrow> TaskRequest \<Rightarrow> state \<Rightarrow> (error + string) \<times> state" where
  "create_task tr task_id request s =
     (case missing_dependency (tasks s) (req_dependencies request) of
        Some dep_id \<Rightarrow>
          (Inl (HTTPException 400 (''Dependency '' @ dep_id @ '' not found'')), s)
      | None \<Rightarrow>
          (let task = \<lparr>id_t = task_id, status = PENDING, message = req_message request,
                       dependencies = req_dependencies request,
                       requires_ordering = req_requires_ordering request\<rparr>;
               s1 = s\<lparr>tasks := (tasks s)(task_id \<mapsto> task)\<rparr>;
               s2 = s1\<lparr>dependents :=
                        link_dependents task_id (req_dependencies request) (dependents s1)\<rparr>
           in case queue_task tr task_id s2 of
                (Inl e, s3) \<Rightarrow> (Inl e, s3)
              | (Inr _, s3) \<Rightarrow> (Inr task_id, s3)))"

text \<open>\<^verbatim>\<open>get_task\<close> (lines 148 to 152).\<close>

definition get_task :: "string \<Rightarrow> state \<Rightarrow> error + Task" where
  "get_task task_id s =
     (case tasks s task_id of
        None \<Rightarrow> Inl (HTTPException 404 ''Task not found'')
      | Some t \<Rightarrow> Inr t)"

section \<open>The system as a machine\<close>

text \<open>
  One event is one request to \<^verbatim>\<open>create_task\<close>, or one worker handling one message
  of its queue: the message at position \<open>i\<close> of the queue \<open>queue_name\<close> is given to
  \<^verbatim>\<open>callback\<close>. An acknowledged message leaves the queue; a message whose handler
  raised stays in it, for the broker to deliver again after the worker has reconnected
  (lines 107 to 109).
\<close>

datatype event =
    Create TaskRequest string transport
  | Deliver string nat bool "nat \<Rightarrow> transport"

fun step :: "event \<Rightarrow> state \<Rightarrow> state" where
  "step (Create request task_id tr) s = snd (create_task tr task_id request s)"
| "step (Deliver queue_name i exec_ok orc) s =
     (if i < length (queues s queue_name) then
        (case callback exec_ok orc (queues s queue_name ! i) s of
           (exn, acked, s') \<Rightarrow>
             if acked
             then s'\<lparr>queues := (queues s')(queue_name :=
                      take i (queues s' queue_name) @ drop (Suc i) (queues s' queue_name))\<rparr>
             else s')
      else s)"

fun run :: "event list \<Rightarrow> state \<Rightarrow> state" where
  "run [] s = s"
| "run (e # es) s = run es (step e s)"

section \<open>Notions used in the statements\<close>

text \<open>
  The destination that line 67 computes for a task, the readiness condition that lines
  58 and 63 test, and the body that line 72 writes for the task stored under an id.
\<close>

definition queue_of :: "Task \<Rightarrow> string" where
  "queue_of t = (if requires_ordering t then QUEUES ordered else QUEUES regular)"

definition ready :: "state \<Rightarrow> Task \<Rightarrow> bool" where
  "ready s t \<longleftrightarrow>
     (\<forall>d\<in>set (dependencies t). \<exists>dt. tasks s d = Some dt \<and> status dt = COMPLETED)"

definition payload :: "state \<Rightarrow> string \<Rightarrow> body" where
  "payload s x = (case tasks s x of None \<Rightarrow> Json_other | Some xt \<Rightarrow> Json_task x (message xt))"

text \<open>Every dependency id stored in a task is a key of \<^verbatim>\<open>tasks\<close>.\<close>

definition deps_exist :: "state \<Rightarrow> bool" where
  "deps_exist s \<longleftrightarrow>
     (\<forall>tid t. tasks s tid = Some t \<longrightarrow> set (dependencies t) \<subseteq> dom (tasks s))"

text \<open>
  A stored task with its status replaced, and the record that line 133 builds for a request.
\<close>

definition with_status :: "string \<Rightarrow> TaskStatus \<Rightarrow> state \<Rightarrow> state" where
  "with_status task_id st s =
     (case tasks s task_id of
        None \<Rightarrow> s
      | Some t \<Rightarrow> s\<lparr>tasks := (tasks s)(task_id \<mapsto> t\<lparr>status := st\<rparr>)\<rparr>)"

definition created_task :: "string \<Rightarrow> TaskRequest \<Rightarrow> Task" where
  "created_task task_id request =
     \<lparr>id_t = task_id, status = PENDING, message = req_message request,
      dependencies = req_dependencies request,
      requires_ordering = req_requires_ordering request\<rparr>"

text \<open>The ids for which the loop of lines 57 to 59 puts a message into a queue.\<close>

fun dispatched :: "(nat \<Rightarrow> transport) \<Rightarrow> nat \<Rightarrow> state \<Rightarrow> string list \<Rightarrow> string list" where
  "dispatched orc i s [] = []"
| "dispatched orc i s (x # rest) =
     (if (case tasks s x of None \<Rightarrow> False | Some xt \<Rightarrow> ready s xt)
         \<and> (orc i = Close_fails \<or> orc i = Transport_ok)
      then x # dispatched orc (Suc i) s rest
      else dispatched orc (Suc i) s rest)"

subsection \<open>Runs with fresh identifiers, and what they keep true\<close>









subsection \<open>Concrete runs\<close>

text \<open>One task without dependencies, created, delivered to a worker and completed.\<close>

definition completed_state :: state where
  "completed_state =
     run [Create \<lparr>req_message = ''m'', req_dependencies = [], req_requires_ordering = False\<rparr>
            ''a'' Transport_ok,
          Deliver (QUEUES regular) 0 True (\<lambda>_. Transport_ok)] init"

text \<open>A task \<open>a\<close> still waiting in the regular queue, and a task \<open>b\<close> that depends on it.\<close>

definition waiting_state :: state where
  "waiting_state =
     run [Create \<lparr>req_message = ''m'', req_dependencies = [], req_requires_ordering = False\<rparr>
            ''a'' Transport_ok,
          Create \<lparr>req_message = ''n'', req_dependencies = [''a''], req_requires_ordering = True\<rparr>
            ''b'' Transport_ok] init"

text \<open>
  A task \<open>a\<close> and a task \<open>b\<close> whose request names \<open>a\<close> twice.
\<close>

definition duplicate_state :: state where
  "duplicate_state =
     run [Create \<lparr>req_message = ''m'', req_dependencies = [], req_requires_ordering = False\<rparr>
            ''a'' Transport_ok,
          Create \<lparr>req_message = ''n'', req_dependencies = [''a'', ''a''],
                  req_requires_ordering = False\<rparr> ''b'' Transport_ok] init"

text \<open>
  A regular queue that holds one message that is not JSON.
\<close>

definition poisoned_state :: state where
  "poisoned_state = init\<lparr>queues := (queues init)(QUEUES regular := [Not_json])\<rparr>"








section \<open>Readiness and dispatch\<close>

lemmas eval_defs = init_def create_task_def queue_task_def basic_publish_def
  callback_def process_task_def Let_def

lemma all_completed_iff:
  "all_completed ts ds = Inr True \<longleftrightarrow>
     (\<forall>d\<in>set ds. \<exists>t. ts d = Some t \<and> status t = COMPLETED)"
  by (induction ds) (auto split: option.splits)

lemma any_not_completed_iff:
  "any_not_completed ts ds = Inr False \<longleftrightarrow>
     (\<forall>d\<in>set ds. \<exists>t. ts d = Some t \<and> status t = COMPLETED)"
  by (induction ds) (auto split: option.splits)

lemma all_completed_no_error:
  "set ds \<subseteq> dom ts \<Longrightarrow>
     all_completed ts ds = Inr (\<forall>d\<in>set ds. \<exists>t. ts d = Some t \<and> status t = COMPLETED)"
  by (induction ds) (auto split: option.splits)

lemma any_not_completed_unready:
  "set ds \<subseteq> dom ts \<Longrightarrow> \<not> (\<forall>d\<in>set ds. \<exists>t. ts d = Some t \<and> status t = COMPLETED)
     \<Longrightarrow> any_not_completed ts ds = Inr True"
  by (induction ds) (auto split: option.splits)

text \<open>
  What \<^verbatim>\<open>queue_task\<close> does for a stored task whose dependencies are stored: the
  outcome depends on the dependencies' statuses and on the broker, and on nothing else.
\<close>

lemma queue_task_cases:
  assumes "tasks s task_id = Some t" and "set (dependencies t) \<subseteq> dom (tasks s)"
  shows "queue_task tr task_id s =
     (if ready s t
      then (if tr = Connect_fails \<or> tr = Publish_fails then (Inr False, s)
            else (Inr (tr = Transport_ok),
                  basic_publish (queue_of t) (Json_task task_id (message t)) s))
      else (Inr False, s))"
proof -
  have "any_not_completed (tasks s) (dependencies t) = Inr (\<not> ready s t)"
  proof (cases "ready s t")
    case True
    then show ?thesis by (simp add: ready_def any_not_completed_iff)
  next
    case False
    with assms(2) show ?thesis
      unfolding ready_def by (simp add: any_not_completed_unready)
  qed
  with assms(1) show ?thesis
    by (cases tr; cases "ready s t") (simp_all add: queue_task_def queue_of_def Let_def)
qed

lemma queue_task_tasks: "tasks (snd (queue_task tr task_id s)) = tasks s"
  by (simp add: queue_task_def basic_publish_def Let_def
      split: option.splits sum.splits bool.splits transport.splits)

lemma queue_task_dependents: "dependents (snd (queue_task tr task_id s)) = dependents s"
  by (simp add: queue_task_def basic_publish_def Let_def
      split: option.splits sum.splits bool.splits transport.splits)

section \<open>The loops and the handlers\<close>

lemma missing_dependency_None: "missing_dependency ts ds = None \<longleftrightarrow> set ds \<subseteq> dom ts"
  by (induction ds) auto

lemma missing_dependency_Some:
  "missing_dependency ts ds = Some d \<Longrightarrow> d \<in> set ds \<and> d \<notin> dom ts"
  by (induction ds) (auto split: if_splits)

lemma link_dependents_get:
  "(case link_dependents task_id ds dm d of None \<Rightarrow> [] | Some l \<Rightarrow> l) =
   (case dm d of None \<Rightarrow> [] | Some l \<Rightarrow> l) @ replicate (count_list ds d) task_id"
proof (induction ds arbitrary: dm)
  case Nil
  show ?case by simp
next
  case (Cons a ds)
  show ?case
    by (simp add: Cons.IH replicate_app_Cons_same)
qed

lemma dispatched_subset:
  "set (dispatched orc i s ds) \<subseteq> {x \<in> set ds. \<exists>xt. tasks s x = Some xt \<and> ready s xt}"
  by (induction ds arbitrary: i) (auto split: option.splits)


lemma dispatched_all_ok:
  "\<forall>j. orc j = Transport_ok \<Longrightarrow>
     dispatched orc i s ds =
       filter (\<lambda>x. case tasks s x of None \<Rightarrow> False | Some xt \<Rightarrow> ready s xt) ds"
  by (induction ds arbitrary: i) simp_all

lemma ready_tasks_eq: "tasks s' = tasks s \<Longrightarrow> ready s' t = ready s t"
  by (simp add: ready_def)

lemma dispatched_tasks_eq: "tasks s' = tasks s \<Longrightarrow> dispatched orc i s' ds = dispatched orc i s ds"
  by (induction ds arbitrary: i) (simp_all add: ready_tasks_eq [of s' s] cong: option.case_cong)

lemma dispatch_dependents_effect:
  assumes "deps_exist s" and "set ds \<subseteq> dom (tasks s)"
  shows "fst (dispatch_dependents orc i ds s) = Inr ()
         \<and> tasks (snd (dispatch_dependents orc i ds s)) = tasks s
         \<and> dependents (snd (dispatch_dependents orc i ds s)) = dependents s
         \<and> (\<forall>q. queues (snd (dispatch_dependents orc i ds s)) q =
                queues s q @ map (payload s)
                  (filter (\<lambda>x. queue_of (the (tasks s x)) = q) (dispatched orc i s ds)))"
  using assms
proof (induction ds arbitrary: s i)
  case Nil
  show ?case by simp
next
  case (Cons x rest)
  from Cons.prems obtain xt where xt: "tasks s x = Some xt"
    by auto
  with Cons.prems(1) have sub: "set (dependencies xt) \<subseteq> dom (tasks s)"
    by (auto simp: deps_exist_def)
  from Cons.prems have rest: "set rest \<subseteq> dom (tasks s)"
    by auto
  have ac: "all_completed (tasks s) (dependencies xt) = Inr (ready s xt)"
    using sub by (simp add: all_completed_no_error ready_def)
  note qt = queue_task_cases [OF xt sub, of "orc i"]
  show ?case
  proof (cases "ready s xt \<and> (orc i = Close_fails \<or> orc i = Transport_ok)")
    case False
    have "queue_task (orc i) x s = (Inr False, s)" if "ready s xt"
      using that False qt by (cases "orc i") auto
    then have eq: "dispatch_dependents orc i (x # rest) s = dispatch_dependents orc (Suc i) rest s"
      using xt ac by (cases "ready s xt") simp_all
    have d: "dispatched orc i s (x # rest) = dispatched orc (Suc i) s rest"
      using False xt by auto
    from Cons.IH [OF Cons.prems(1) rest, of "Suc i"] show ?thesis
      unfolding eq d .
  next
    case True
    define s' where "s' = basic_publish (queue_of xt) (Json_task x (message xt)) s"
    have "queue_task (orc i) x s = (Inr (orc i = Transport_ok), s')"
      using True qt by (auto simp: s'_def)
    then have eq: "dispatch_dependents orc i (x # rest) s = dispatch_dependents orc (Suc i) rest s'"
      using True xt ac by simp
    have d: "dispatched orc i s (x # rest) = x # dispatched orc (Suc i) s rest"
      using True xt by auto
    have ts': "tasks s' = tasks s" and ds': "dependents s' = dependents s"
      by (simp_all add: s'_def basic_publish_def)
    have de: "deps_exist s'"
      using Cons.prems(1) by (simp add: deps_exist_def ts')
    from rest have rest': "set rest \<subseteq> dom (tasks s')"
      by (simp add: ts')
    have pl: "payload s' = payload s"
      by (rule ext) (simp add: payload_def ts')
    have qs': "\<And>q. queues s' q =
        (if q = queue_of xt then queues s q @ [Json_task x (message xt)] else queues s q)"
      by (simp add: s'_def basic_publish_def)
    have px: "payload s x = Json_task x (message xt)"
      using xt by (simp add: payload_def)
    from Cons.IH [OF de rest', of "Suc i"] show ?thesis
      unfolding eq d by (simp add: ts' ds' pl qs' px xt dispatched_tasks_eq [OF ts'])
  qed
qed

lemma with_status_simps:
  "tasks s task_id = Some t \<Longrightarrow>
     with_status task_id st s = s\<lparr>tasks := (tasks s)(task_id \<mapsto> t\<lparr>status := st\<rparr>)\<rparr>"
  by (simp add: with_status_def)

lemma deps_exist_with_status: "deps_exist s \<Longrightarrow> deps_exist (with_status task_id st s)"
  by (auto simp: deps_exist_def with_status_def split: option.splits if_splits)

lemma dom_with_status: "dom (tasks (with_status task_id st s)) = dom (tasks s)"
  by (auto simp: with_status_def split: option.splits if_splits)

lemma process_task_completes:
  assumes "deps_exist s" and "tasks s task_id = Some t"
    and "set (case dependents s task_id of None \<Rightarrow> [] | Some l \<Rightarrow> l) \<subseteq> dom (tasks s)"
  shows "fst (process_task True orc task_id s) = Inr ()
         \<and> tasks (snd (process_task True orc task_id s)) = tasks (with_status task_id COMPLETED s)
         \<and> dependents (snd (process_task True orc task_id s)) = dependents s
         \<and> (\<forall>q. queues (snd (process_task True orc task_id s)) q =
                queues s q @ map (payload (with_status task_id COMPLETED s))
                  (filter (\<lambda>x. queue_of (the (tasks (with_status task_id COMPLETED s) x)) = q)
                     (dispatched orc 0 (with_status task_id COMPLETED s)
                        (case dependents s task_id of None \<Rightarrow> [] | Some l \<Rightarrow> l))))"
proof -
  define s2 where "s2 = with_status task_id COMPLETED s"
  define ds where "ds = (case dependents s task_id of None \<Rightarrow> [] | Some l \<Rightarrow> l)"
  have s2: "s2 = s\<lparr>tasks := (tasks s)(task_id \<mapsto> t\<lparr>status := COMPLETED\<rparr>)\<rparr>"
    using assms(2) by (simp add: s2_def with_status_simps)
  have p: "process_task True orc task_id s = dispatch_dependents orc 0 ds s2"
    using assms(2) by (simp add: process_task_def s2 ds_def)
  have de: "deps_exist s2"
    unfolding s2_def using assms(1) by (rule deps_exist_with_status)
  have sub: "set ds \<subseteq> dom (tasks s2)"
    using assms(3) by (simp add: s2_def dom_with_status ds_def)
  have f: "dependents s2 = dependents s" "queues s2 = queues s"
    by (simp_all add: s2)
  from dispatch_dependents_effect [OF de sub, of orc 0] show ?thesis
    unfolding p s2_def [symmetric] ds_def [symmetric] f .
qed

lemma callback_failed_work:
  assumes "tasks s task_id = Some t"
  shows "callback False orc (Json_task task_id m) s = (None, True, with_status task_id FAILED s)"
  using assms by (simp add: callback_def process_task_def with_status_def)


lemma create_task_effect:
  assumes "set (req_dependencies request) \<subseteq> dom (tasks s)"
  shows "create_task tr task_id request s =
           (Inr task_id,
            snd (queue_task tr task_id
              (s\<lparr>tasks := (tasks s)(task_id \<mapsto> created_task task_id request),
                 dependents := link_dependents task_id (req_dependencies request) (dependents s)\<rparr>)))"
proof -
  define s2 where "s2 = s\<lparr>tasks := (tasks s)(task_id \<mapsto> created_task task_id request),
                 dependents := link_dependents task_id (req_dependencies request) (dependents s)\<rparr>"
  have t: "tasks s2 task_id = Some (created_task task_id request)"
    by (simp add: s2_def)
  have "set (dependencies (created_task task_id request)) \<subseteq> dom (tasks s2)"
    using assms by (auto simp: s2_def created_task_def)
  from queue_task_cases [OF t this, of tr]
  obtain b where "fst (queue_task tr task_id s2) = Inr b"
    by (auto split: if_splits)
  moreover obtain r s3 where "queue_task tr task_id s2 = (r, s3)"
    by (cases "queue_task tr task_id s2")
  moreover have "missing_dependency (tasks s) (req_dependencies request) = None"
    using assms by (simp add: missing_dependency_None)
  ultimately show ?thesis
    unfolding s2_def by (simp add: create_task_def created_task_def Let_def)
qed

lemma count_list_payload:
  "set ys \<subseteq> dom (tasks s) \<Longrightarrow> tasks s x = Some xt \<Longrightarrow>
     count_list (map (payload s) ys) (Json_task x (message xt)) = count_list ys x"
  by (induction ys) (auto simp: payload_def)

lemma count_list_filter: "count_list (filter P ys) x = (if P x then count_list ys x else 0)"
  by (induction ys) auto

lemma create_task_dependents:
  assumes "set (req_dependencies request) \<subseteq> dom (tasks s)"
  shows "dependents (snd (create_task tr task_id request s)) =
           link_dependents task_id (req_dependencies request) (dependents s)"
  by (simp add: create_task_effect [OF assms] queue_task_dependents)

section \<open>Runs with fresh identifiers\<close>








lemma delete_nth_append:
  "i < length xs \<Longrightarrow>
     take i (xs @ ys) @ drop (Suc i) (xs @ ys) = (take i xs @ drop (Suc i) xs) @ ys"
  by simp















section \<open>The claims about single operations\<close>

text \<open>
  Claim C1, as stated: for every task whose status is not \<^verbatim>\<open>PENDING\<close>, calling
  \<^verbatim>\<open>queue_task\<close> on it publishes nothing and returns false. The code does not do
  that: \<^verbatim>\<open>queue_task\<close> never reads the status of the task it is given. In
  \<open>completed_state\<close> the task \<open>a\<close> is \<^verbatim>\<open>COMPLETED\<close>, and the call returns true and
  puts a second message for \<open>a\<close> into the regular queue.
\<close>

theorem queue_task_republishes_completed_task:
  "map_option status (tasks completed_state ''a'') = Some COMPLETED
   \<and> queues completed_state (QUEUES regular) = []
   \<and> fst (queue_task Transport_ok ''a'' completed_state) = Inr True
   \<and> queues (snd (queue_task Transport_ok ''a'' completed_state)) (QUEUES regular)
       = [Json_task ''a'' ''m'']"
  by (simp add: completed_state_def eval_defs)

text \<open>
  Claim C1, amended: the gate of \<^verbatim>\<open>queue_task\<close> is the readiness of the task, not
  its status. For a stored task it is a no-op that returns false when some dependency is
  not \<^verbatim>\<open>COMPLETED\<close>, whatever the task's own status is; when every dependency is
  \<^verbatim>\<open>COMPLETED\<close> it publishes the task and returns true if the broker accepts, again
  whatever the status is. The right-hand side below does not mention \<open>status t\<close>.
\<close>

theorem queue_task_gate_is_readiness:
  assumes "tasks s task_id = Some t" and "set (dependencies t) \<subseteq> dom (tasks s)"
  shows "queue_task tr task_id s =
     (if (\<forall>d\<in>set (dependencies t). \<exists>dt. tasks s d = Some dt \<and> status dt = COMPLETED)
      then (if tr = Connect_fails \<or> tr = Publish_fails then (Inr False, s)
            else (Inr (tr = Transport_ok),
                  basic_publish (if requires_ordering t then QUEUES ordered else QUEUES regular)
                    (Json_task task_id (message t)) s))
      else (Inr False, s))"
  using queue_task_cases [OF assms, of tr] unfolding ready_def queue_of_def .

theorem queue_task_gate_is_readiness_witness:
  "queue_task Transport_ok ''b'' waiting_state = (Inr False, waiting_state)"
proof -
  let ?t = "\<lparr>id_t = ''b'', status = PENDING, message = ''n'', dependencies = [''a''],
             requires_ordering = True\<rparr>"
  have h1: "tasks waiting_state ''b'' = Some ?t"
    by (simp add: waiting_state_def eval_defs)
  have h2: "set (dependencies ?t) \<subseteq> dom (tasks waiting_state)"
    by (simp add: waiting_state_def eval_defs)
  have h3: "map_option status (tasks waiting_state ''a'') = Some PENDING"
    by (simp add: waiting_state_def eval_defs)
  from queue_task_gate_is_readiness [OF h1 h2, of Transport_ok] h3 show ?thesis
    by auto
qed

text \<open>
  Claim C3: the readiness check holds if and only if every dependency of the task has
  status \<^verbatim>\<open>COMPLETED\<close>, for the test of line 58 and for the test of line 63 (which
  lets the task through when it gives false); and a task created with an empty dependency
  list is stored as \<^verbatim>\<open>PENDING\<close> and passes both tests in the state that
  \<^verbatim>\<open>create_task\<close> leaves.
\<close>

theorem readiness_iff_dependencies_completed:
  "(all_completed (tasks s) (dependencies t) = Inr True \<longleftrightarrow>
      (\<forall>d\<in>set (dependencies t). \<exists>dt. tasks s d = Some dt \<and> status dt = COMPLETED))
   \<and> (any_not_completed (tasks s) (dependencies t) = Inr False \<longleftrightarrow>
      (\<forall>d\<in>set (dependencies t). \<exists>dt. tasks s d = Some dt \<and> status dt = COMPLETED))
   \<and> (req_dependencies request = [] \<longrightarrow>
        (\<exists>nt. tasks (snd (create_task tr task_id request s)) task_id = Some nt
           \<and> status nt = PENDING
           \<and> all_completed (tasks (snd (create_task tr task_id request s)))
                (dependencies nt) = Inr True
           \<and> any_not_completed (tasks (snd (create_task tr task_id request s)))
                (dependencies nt) = Inr False))"
proof (intro conjI impI)
  show "all_completed (tasks s) (dependencies t) = Inr True \<longleftrightarrow>
      (\<forall>d\<in>set (dependencies t). \<exists>dt. tasks s d = Some dt \<and> status dt = COMPLETED)"
    by (rule all_completed_iff)
  show "any_not_completed (tasks s) (dependencies t) = Inr False \<longleftrightarrow>
      (\<forall>d\<in>set (dependencies t). \<exists>dt. tasks s d = Some dt \<and> status dt = COMPLETED)"
    by (rule any_not_completed_iff)
next
  assume e: "req_dependencies request = []"
  let ?nt = "\<lparr>id_t = task_id, status = PENDING, message = req_message request,
              dependencies = [], requires_ordering = req_requires_ordering request\<rparr>"
  have "tasks (snd (create_task tr task_id request s)) task_id = Some ?nt"
    using e by (cases tr) (simp_all add: create_task_def queue_task_def basic_publish_def Let_def)
  then show "\<exists>nt. tasks (snd (create_task tr task_id request s)) task_id = Some nt
           \<and> status nt = PENDING
           \<and> all_completed (tasks (snd (create_task tr task_id request s)))
                (dependencies nt) = Inr True
           \<and> any_not_completed (tasks (snd (create_task tr task_id request s)))
                (dependencies nt) = Inr False"
    by simp
qed

theorem readiness_iff_dependencies_completed_witness:
  "all_completed (tasks completed_state) [''a''] = Inr True
   \<and> any_not_completed (tasks completed_state) [''a''] = Inr False
   \<and> (\<exists>nt. tasks (snd (create_task Transport_ok ''c''
                \<lparr>req_message = ''m'', req_dependencies = [], req_requires_ordering = False\<rparr>
                completed_state)) ''c'' = Some nt \<and> status nt = PENDING)"
proof -
  let ?t = "\<lparr>id_t = ''b'', status = PENDING, message = ''n'', dependencies = [''a''],
             requires_ordering = False\<rparr>"
  let ?r = "\<lparr>req_message = ''m'', req_dependencies = [], req_requires_ordering = False\<rparr>"
  have c: "\<forall>d\<in>set (dependencies ?t). \<exists>dt. tasks completed_state d = Some dt \<and> status dt = COMPLETED"
    by (simp add: completed_state_def eval_defs)
  have e: "req_dependencies ?r = []"
    by simp
  from readiness_iff_dependencies_completed [of completed_state ?t ?r Transport_ok "''c''"] c e
  show ?thesis
    by auto
qed

text \<open>
  Claim C4: a creation request that lists a dependency id absent from the store fails with
  the \<^verbatim>\<open>HTTPException\<close> of line 132 (status 400, naming an absent id of the
  request), and the state after the call is the state before it: no task is created and
  neither \<^verbatim>\<open>tasks\<close> nor \<^verbatim>\<open>dependents\<close> is modified.
\<close>

theorem create_task_unknown_dependency:
  assumes "d \<in> set (req_dependencies request)" and "d \<notin> dom (tasks s)"
  shows "\<exists>dep_id. dep_id \<in> set (req_dependencies request) \<and> dep_id \<notin> dom (tasks s) \<and>
           create_task tr task_id request s =
             (Inl (HTTPException 400 (''Dependency '' @ dep_id @ '' not found'')), s)"
proof -
  from assms have "missing_dependency (tasks s) (req_dependencies request) \<noteq> None"
    by (auto simp: missing_dependency_None)
  then obtain dep_id where
    m: "missing_dependency (tasks s) (req_dependencies request) = Some dep_id"
    by blast
  from missing_dependency_Some [OF m] m show ?thesis
    by (auto simp: create_task_def)
qed

theorem create_task_unknown_dependency_witness:
  "create_task Transport_ok ''c''
     \<lparr>req_message = ''x'', req_dependencies = [''nonexistent''], req_requires_ordering = False\<rparr>
     completed_state
   = (Inl (HTTPException 400 ''Dependency nonexistent not found''), completed_state)"
proof -
  let ?r = "\<lparr>req_message = ''x'', req_dependencies = [''nonexistent''],
              req_requires_ordering = False\<rparr>"
  have h1: "''nonexistent'' \<in> set (req_dependencies ?r)"
    by simp
  have h2: "''nonexistent'' \<notin> dom (tasks completed_state)"
    by (simp add: completed_state_def eval_defs)
  from create_task_unknown_dependency [OF h1 h2, of Transport_ok "''c''"] show ?thesis
    by auto
qed

text \<open>
  Claim C6: when the work of the task of a message raises, the handler sets the status of
  that task to \<^verbatim>\<open>FAILED\<close> and acknowledges the message, and nothing else changes:
  no queue receives a message, so no dependent is dispatched. For the machine, the
  message leaves its queue and every queue is otherwise as before.
\<close>

theorem worker_marks_failed_and_acknowledges:
  assumes "tasks s task_id = Some t"
  shows "callback False orc (Json_task task_id m) s =
           (None, True, s\<lparr>tasks := (tasks s)(task_id \<mapsto> t\<lparr>status := FAILED\<rparr>)\<rparr>)
         \<and> (i < length (queues s q) \<and> queues s q ! i = Json_task task_id m \<longrightarrow>
              step (Deliver q i False orc) s =
                s\<lparr>tasks := (tasks s)(task_id \<mapsto> t\<lparr>status := FAILED\<rparr>),
                  queues := (queues s)(q := take i (queues s q) @ drop (Suc i) (queues s q))\<rparr>)"
  using callback_failed_work [OF assms, of orc m]
  by (simp add: with_status_simps [OF assms])

theorem worker_marks_failed_and_acknowledges_witness:
  "callback False (\<lambda>_. Transport_ok) (Json_task ''a'' ''m'') waiting_state =
     (None, True, with_status ''a'' FAILED waiting_state)
   \<and> queues (step (Deliver (QUEUES regular) 0 False (\<lambda>_. Transport_ok)) waiting_state) = (\<lambda>_. [])
   \<and> map_option status
        (tasks (step (Deliver (QUEUES regular) 0 False (\<lambda>_. Transport_ok)) waiting_state) ''a'')
       = Some FAILED
   \<and> map_option status
        (tasks (step (Deliver (QUEUES regular) 0 False (\<lambda>_. Transport_ok)) waiting_state) ''b'')
       = Some PENDING"
proof -
  let ?t = "\<lparr>id_t = ''a'', status = PENDING, message = ''m'', dependencies = [],
             requires_ordering = False\<rparr>"
  have h1: "tasks waiting_state ''a'' = Some ?t"
    by (simp add: waiting_state_def eval_defs)
  have h2: "queues waiting_state = (\<lambda>_. [])(QUEUES regular := [Json_task ''a'' ''m''])"
    by (simp add: waiting_state_def eval_defs)
  have h3: "map_option status (tasks waiting_state ''b'') = Some PENDING"
    by (simp add: waiting_state_def eval_defs)
  from worker_marks_failed_and_acknowledges
         [OF h1, of "\<lambda>_. Transport_ok" "''m''" 0 "QUEUES regular"] h1 h2 h3
  show ?thesis
    by (auto simp: with_status_def)
qed

text \<open>
  Claim C7 says that a message whose payload fails to decode is acknowledged and dropped.
  The comment of line 96 says the same of every error. The handler does not do it: its
  \<^verbatim>\<open>except\<close> branch decodes the body again (line 98) before it reaches
  \<^verbatim>\<open>basic_ack\<close> (line 102), so the decode error is raised a second time and
  leaves the handler. No task status is changed, but the message is not acknowledged
  and stays in its queue, to be delivered again.
\<close>

theorem callback_undecodable_body_not_acknowledged:
  "callback exec_ok orc Not_json s = (Some JSONDecodeError, False, s)
   \<and> callback exec_ok orc Json_other s = (Some (KeyError ''task_id''), False, s)
   \<and> step (Deliver (QUEUES regular) 0 True (\<lambda>_. Transport_ok)) poisoned_state = poisoned_state
   \<and> queues poisoned_state (QUEUES regular) = [Not_json]"
  by (simp add: callback_def poisoned_state_def init_def)

text \<open>
  Claim C8: for a ready task, when the call of \<^verbatim>\<open>queue_task\<close> does not go
  through at the broker it returns false, and \<^verbatim>\<open>tasks\<close> and
  \<^verbatim>\<open>dependents\<close> are as before, so the task keeps the status it had. When the
  connection or the publish call is what failed, the whole state is as before.
\<close>

theorem queue_task_failed_publish_changes_nothing:
  assumes "tasks s task_id = Some t"
    and "\<forall>d\<in>set (dependencies t). \<exists>dt. tasks s d = Some dt \<and> status dt = COMPLETED"
    and "tr \<noteq> Transport_ok"
  shows "fst (queue_task tr task_id s) = Inr False
         \<and> tasks (snd (queue_task tr task_id s)) = tasks s
         \<and> dependents (snd (queue_task tr task_id s)) = dependents s
         \<and> (tr \<noteq> Close_fails \<longrightarrow> queue_task tr task_id s = (Inr False, s))"
proof -
  from assms(2) have "any_not_completed (tasks s) (dependencies t) = Inr False"
    by (simp add: any_not_completed_iff)
  with assms(1,3) show ?thesis
    by (cases tr) (simp_all add: queue_task_def basic_publish_def Let_def)
qed

theorem queue_task_failed_publish_changes_nothing_witness:
  "queue_task Publish_fails ''a'' waiting_state = (Inr False, waiting_state)
   \<and> map_option status (tasks waiting_state ''a'') = Some PENDING"
proof -
  let ?t = "\<lparr>id_t = ''a'', status = PENDING, message = ''m'', dependencies = [],
             requires_ordering = False\<rparr>"
  have h1: "tasks waiting_state ''a'' = Some ?t"
    by (simp add: waiting_state_def eval_defs)
  have h2: "\<forall>d\<in>set (dependencies ?t). \<exists>dt. tasks waiting_state d = Some dt \<and> status dt = COMPLETED"
    by simp
  have h3: "Publish_fails \<noteq> Transport_ok"
    by simp
  from queue_task_failed_publish_changes_nothing [OF h1 h2 h3] h1 show ?thesis
    by simp
qed

text \<open>
  Claim C9, as stated: every successful creation uses an identifier that is not yet a key
  of \<^verbatim>\<open>tasks\<close> and overwrites no task. The code takes the first eight characters
  of a random UUID and stores the new record under them without a look at the keys. When
  that value is the id of the completed task \<open>a\<close>, the creation succeeds and the
  record of \<open>a\<close> is replaced by the new \<^verbatim>\<open>PENDING\<close> one.
\<close>

theorem create_task_overwrites_on_id_collision:
  "map_option status (tasks completed_state ''a'') = Some COMPLETED
   \<and> map_option message (tasks completed_state ''a'') = Some ''m''
   \<and> fst (create_task Transport_ok ''a''
        \<lparr>req_message = ''second'', req_dependencies = [], req_requires_ordering = False\<rparr>
        completed_state) = Inr ''a''
   \<and> tasks (snd (create_task Transport_ok ''a''
        \<lparr>req_message = ''second'', req_dependencies = [], req_requires_ordering = False\<rparr>
        completed_state)) ''a''
      = Some \<lparr>id_t = ''a'', status = PENDING, message = ''second'', dependencies = [],
              requires_ordering = False\<rparr>"
  by (simp add: completed_state_def eval_defs)

text \<open>
  Claim C9, amended: every successful creation, whatever the generated identifier is,
  returns that identifier, stores under it a record with status \<^verbatim>\<open>PENDING\<close> built
  from the request, leaves the record under every other key as it was, and makes the keys
  of \<^verbatim>\<open>tasks\<close> the old keys and the identifier. When the generated identifier is
  not yet a key of \<^verbatim>\<open>tasks\<close>, every task stored before is unchanged; the code
  does not check that it is.
\<close>

theorem create_task_with_fresh_id:
  assumes "fst (create_task tr task_id request s) = Inr r"
  shows "r = task_id
         \<and> tasks (snd (create_task tr task_id request s)) task_id =
             Some \<lparr>id_t = task_id, status = PENDING, message = req_message request,
                    dependencies = req_dependencies request,
                    requires_ordering = req_requires_ordering request\<rparr>
         \<and> (\<forall>k. k \<noteq> task_id \<longrightarrow> tasks (snd (create_task tr task_id request s)) k = tasks s k)
         \<and> dom (tasks (snd (create_task tr task_id request s))) = insert task_id (dom (tasks s))
         \<and> (task_id \<notin> dom (tasks s) \<longrightarrow>
              (\<forall>k\<in>dom (tasks s). tasks (snd (create_task tr task_id request s)) k = tasks s k))"
proof -
  have "missing_dependency (tasks s) (req_dependencies request) = None"
    using assms by (cases "missing_dependency (tasks s) (req_dependencies request)")
      (simp_all add: create_task_def)
  then have "set (req_dependencies request) \<subseteq> dom (tasks s)"
    by (simp add: missing_dependency_None)
  from create_task_effect [OF this, of tr task_id] assms show ?thesis
    by (auto simp: queue_task_tasks created_task_def)
qed

theorem create_task_with_fresh_id_witness:
  "fst (create_task Transport_ok ''c''
          \<lparr>req_message = ''x'', req_dependencies = [''a''], req_requires_ordering = False\<rparr>
          completed_state) = Inr ''c''
   \<and> ''c'' \<notin> dom (tasks completed_state)
   \<and> map_option status (tasks (snd (create_task Transport_ok ''c''
          \<lparr>req_message = ''x'', req_dependencies = [''a''], req_requires_ordering = False\<rparr>
          completed_state)) ''c'') = Some PENDING
   \<and> tasks (snd (create_task Transport_ok ''c''
          \<lparr>req_message = ''x'', req_dependencies = [''a''], req_requires_ordering = False\<rparr>
          completed_state)) ''a'' = tasks completed_state ''a''
   \<and> dom (tasks (snd (create_task Transport_ok ''c''
          \<lparr>req_message = ''x'', req_dependencies = [''a''], req_requires_ordering = False\<rparr>
          completed_state))) = {''a'', ''c''}"
proof -
  let ?r = "\<lparr>req_message = ''x'', req_dependencies = [''a''], req_requires_ordering = False\<rparr>"
  have h1: "fst (create_task Transport_ok ''c'' ?r completed_state) = Inr ''c''"
    by (simp add: completed_state_def eval_defs)
  have h2: "''c'' \<notin> dom (tasks completed_state)"
    by (simp add: completed_state_def eval_defs)
  have h3: "dom (tasks completed_state) = {''a''}"
    by (simp add: completed_state_def eval_defs)
  from create_task_with_fresh_id [OF h1] h1 h2 h3 show ?thesis
    by auto
qed

text \<open>
  Claim C10: a successful creation appends the new id to the dependents list of a
  dependency once for each occurrence of that dependency in the request; and when a task
  completes and the broker accepts every message, a dependent that is ready then gets one
  message for each of its occurrences in the dependents list of the completed task.
\<close>

theorem duplicate_dependency_dispatched_per_occurrence:
  "(set (req_dependencies request) \<subseteq> dom (tasks s) \<longrightarrow>
      (case dependents (snd (create_task tr task_id request s)) d of None \<Rightarrow> [] | Some l \<Rightarrow> l) =
      (case dependents s d of None \<Rightarrow> [] | Some l \<Rightarrow> l)
        @ replicate (count_list (req_dependencies request) d) task_id)
   \<and> (deps_exist s \<and> tasks s d = Some t
        \<and> set (case dependents s d of None \<Rightarrow> [] | Some l \<Rightarrow> l) \<subseteq> dom (tasks s)
        \<and> (\<forall>j. orc j = Transport_ok)
        \<and> tasks (with_status d COMPLETED s) x = Some xt
        \<and> ready (with_status d COMPLETED s) xt \<longrightarrow>
      fst (process_task True orc d s) = Inr ()
      \<and> count_list (queues (snd (process_task True orc d s)) (queue_of xt))
           (Json_task x (message xt)) =
         count_list (queues s (queue_of xt)) (Json_task x (message xt))
           + count_list (case dependents s d of None \<Rightarrow> [] | Some l \<Rightarrow> l) x)"
proof (rule conjI; rule impI)
  assume "set (req_dependencies request) \<subseteq> dom (tasks s)"
  then show "(case dependents (snd (create_task tr task_id request s)) d of
                None \<Rightarrow> [] | Some l \<Rightarrow> l) =
      (case dependents s d of None \<Rightarrow> [] | Some l \<Rightarrow> l)
        @ replicate (count_list (req_dependencies request) d) task_id"
    by (simp add: create_task_dependents link_dependents_get)
next
  define s2 where "s2 = with_status d COMPLETED s"
  define ds where "ds = (case dependents s d of None \<Rightarrow> [] | Some l \<Rightarrow> l)"
  assume a: "deps_exist s \<and> tasks s d = Some t
        \<and> set (case dependents s d of None \<Rightarrow> [] | Some l \<Rightarrow> l) \<subseteq> dom (tasks s)
        \<and> (\<forall>j. orc j = Transport_ok)
        \<and> tasks (with_status d COMPLETED s) x = Some xt
        \<and> ready (with_status d COMPLETED s) xt"
  then have de: "deps_exist s" and t: "tasks s d = Some t" and sub: "set ds \<subseteq> dom (tasks s)"
    and ok: "\<forall>j. orc j = Transport_ok" and xt: "tasks s2 x = Some xt" and r: "ready s2 xt"
    by (simp_all add: s2_def ds_def)
  from process_task_completes [OF de t, of orc] sub
  have p: "fst (process_task True orc d s) = Inr ()"
    and q: "queues (snd (process_task True orc d s)) (queue_of xt) =
              queues s (queue_of xt) @ map (payload s2)
                (filter (\<lambda>y. queue_of (the (tasks s2 y)) = queue_of xt) (dispatched orc 0 s2 ds))"
    by (simp_all add: s2_def ds_def)
  let ?sent = "filter (\<lambda>y. queue_of (the (tasks s2 y)) = queue_of xt) (dispatched orc 0 s2 ds)"
  have "set ?sent \<subseteq> dom (tasks s2)"
    using dispatched_subset [of orc 0 s2 ds] by auto
  then have "count_list (map (payload s2) ?sent) (Json_task x (message xt)) = count_list ?sent x"
    using xt by (rule count_list_payload)
  also have "\<dots> = count_list ds x"
    using xt r by (simp add: dispatched_all_ok [OF ok] count_list_filter)
  finally have "count_list (queues (snd (process_task True orc d s)) (queue_of xt))
           (Json_task x (message xt)) =
         count_list (queues s (queue_of xt)) (Json_task x (message xt)) + count_list ds x"
    by (simp add: q)
  with p show "fst (process_task True orc d s) = Inr ()
      \<and> count_list (queues (snd (process_task True orc d s)) (queue_of xt))
           (Json_task x (message xt)) =
         count_list (queues s (queue_of xt)) (Json_task x (message xt))
           + count_list (case dependents s d of None \<Rightarrow> [] | Some l \<Rightarrow> l) x"
    by (simp add: ds_def)
qed

theorem duplicate_dependency_dispatched_per_occurrence_witness:
  "(case dependents duplicate_state ''a'' of None \<Rightarrow> [] | Some l \<Rightarrow> l) = [''b'', ''b'']
   \<and> count_list (queues duplicate_state (QUEUES regular)) (Json_task ''b'' ''n'') = 0
   \<and> count_list (queues (snd (process_task True (\<lambda>_. Transport_ok) ''a'' duplicate_state))
        (QUEUES regular)) (Json_task ''b'' ''n'') = 2"
proof -
  let ?ra = "\<lparr>req_message = ''m'', req_dependencies = [], req_requires_ordering = False\<rparr>"
  let ?rb = "\<lparr>req_message = ''n'', req_dependencies = [''a'', ''a''],
               req_requires_ordering = False\<rparr>"
  let ?ta = "\<lparr>id_t = ''a'', status = PENDING, message = ''m'', dependencies = [],
              requires_ordering = False\<rparr>"
  let ?tb = "\<lparr>id_t = ''b'', status = PENDING, message = ''n'', dependencies = [''a'', ''a''],
              requires_ordering = False\<rparr>"
  let ?s1 = "step (Create ?ra ''a'' Transport_ok) init"
  have d: "duplicate_state = snd (create_task Transport_ok ''b'' ?rb ?s1)"
    by (simp add: duplicate_state_def)
  have c1: "set (req_dependencies ?rb) \<subseteq> dom (tasks ?s1)"
    by (simp add: eval_defs)
  have c2: "dependents ?s1 ''a'' = None"
    by (simp add: eval_defs)
  have ta: "tasks duplicate_state ''a'' = Some ?ta" and tb: "tasks duplicate_state ''b'' = Some ?tb"
    and dom: "dom (tasks duplicate_state) = {''b'', ''a''}"
    and dep: "dependents duplicate_state ''a'' = Some [''b'', ''b'']"
    and qu: "queues duplicate_state (QUEUES regular) = [Json_task ''a'' ''m'']"
    by (simp_all add: duplicate_state_def eval_defs)
  have e: "deps_exist duplicate_state"
    unfolding deps_exist_def
  proof (intro allI impI)
    fix tid t
    assume h: "tasks duplicate_state tid = Some t"
    then have "tid \<in> dom (tasks duplicate_state)"
      by blast
    then have "tid = ''a'' \<or> tid = ''b''"
      unfolding dom by blast
    with h ta tb have "dependencies t = [] \<or> dependencies t = [''a'', ''a'']"
      by auto
    then show "set (dependencies t) \<subseteq> dom (tasks duplicate_state)"
      unfolding dom by auto
  qed
  have w: "tasks (with_status ''a'' COMPLETED duplicate_state) ''b'' = Some ?tb"
    using ta tb by (simp add: with_status_def)
  have r: "ready (with_status ''a'' COMPLETED duplicate_state) ?tb"
    using ta by (simp add: ready_def with_status_def)
  have s: "set (case dependents duplicate_state ''a'' of None \<Rightarrow> [] | Some l \<Rightarrow> l)
             \<subseteq> dom (tasks duplicate_state)"
    using dep dom by simp
  from duplicate_dependency_dispatched_per_occurrence
         [of ?rb ?s1 Transport_ok "''b''" "''a''"] c1 c2 d
  have one: "(case dependents duplicate_state ''a'' of None \<Rightarrow> [] | Some l \<Rightarrow> l) = [''b'', ''b'']"
    by simp
  from duplicate_dependency_dispatched_per_occurrence
         [of ?rb duplicate_state Transport_ok "''b''" "''a''" ?ta "\<lambda>_. Transport_ok" "''b''" ?tb]
       e ta s w r dep qu
  have two: "count_list (queues (snd (process_task True (\<lambda>_. Transport_ok) ''a'' duplicate_state))
        (QUEUES regular)) (Json_task ''b'' ''n'') = 2"
    by (simp add: queue_of_def)
  from one two qu show ?thesis
    by simp
qed

section \<open>The claims about runs\<close>







end
